theory Spec2Isabelle
  imports Complex_Main
begin

section \<open>Conventions\<close>

text \<open>
  Python floats (and the float32 arrays of numpy) are modelled as \<^typ>\<open>real\<close>: exact
  arithmetic, no NaN and no infinities.  The one place where a result is decided by the
  rounding of a float operation, the floor division in \<open>BeatGrid.beat_index_at\<close>, is
  modelled with binary64 rounding (\<open>float_round\<close>: 53 significant bits, round to nearest,
  ties to even, exponent range unbounded).  Python's unbounded integers are \<^typ>\<open>int\<close>;
  array indices and lengths are \<^typ>\<open>nat\<close>.  Every \<open>raise\<close> of the source is a value of
  \<open>py_error\<close> returned in the left summand.
\<close>

datatype py_error = ZeroDivisionError | TypeError | KeyError | FileNotFoundError | ImportError | LibraryError
  | AttributeError | ValueError

text \<open>\<open>int(x)\<close> on a float: truncation towards zero.\<close>

definition py_int :: "real \<Rightarrow> int" where
  "py_int x = (if 0 \<le> x then \<lfloor>x\<rfloor> else \<lceil>x\<rceil>)"

text \<open>Rounding a real to the nearest binary64 value.\<close>

definition round_half_even :: "real \<Rightarrow> int" where
  "round_half_even x =
     (let f = \<lfloor>x\<rfloor>; r = x - of_int f
      in if r < 1 / 2 then f else if 1 / 2 < r then f + 1 else if even f then f else f + 1)"

definition binade :: "real \<Rightarrow> int" where
  "binade x = \<lfloor>log 2 \<bar>x\<bar>\<rfloor>"

definition float_round :: "real \<Rightarrow> real" where
  "float_round x =
     (if x = 0 then 0
      else (let u = 2 powr of_int (binade x - 52)
            in of_int (round_half_even (x / u)) * u))"


section \<open>core/grid.py\<close>

record BeatGrid =
  bpm :: real
  downbeat_t0 :: real
  beats_per_bar :: int

text \<open>\<open>bpm = max(30.0, min(300.0, float(self.bpm))); return 60.0 / bpm\<close>\<close>

definition beat_seconds :: "BeatGrid \<Rightarrow> real" where
  "beat_seconds g = (let b = max 30 (min 300 (bpm g)) in 60 / b)"

text \<open>
  The binary64 value that \<open>beat_seconds()\<close> returns: \<open>float(self.bpm)\<close>, the clamp, and
  the rounded quotient \<open>60.0 / bpm\<close>.
\<close>

definition beat_seconds_double :: "BeatGrid \<Rightarrow> real" where
  "beat_seconds_double g =
     (let b = max 30 (min 300 (float_round (bpm g))) in float_round (60 / b))"


section \<open>core/tempo.py\<close>

text \<open>
  librosa is an external library.  What the two librosa calls of the \<open>try\<close> body do is a
  parameter of the model: either some exception (also a failing \<open>import\<close>), or the tempo
  array they return.
\<close>

definition tempo_try_body :: "py_error + real list \<Rightarrow> py_error + real option" where
  "tempo_try_body librosa_tempo =
     (case librosa_tempo of
        Inl e \<Rightarrow> Inl e
      | Inr tempo \<Rightarrow>
          (let bpm = (if length tempo \<noteq> 0 then Some (tempo ! 0) else None)
           in case bpm of
                None \<Rightarrow> Inr None
              | Some b \<Rightarrow> if b \<noteq> 0 \<and> (30 \<le> b \<and> b \<le> 300) then Inr (Some b) else Inr None))"

text \<open>\<open>except Exception: return None\<close>\<close>

definition estimate_bpm_librosa_optional :: "py_error + real list \<Rightarrow> py_error + real option" where
  "estimate_bpm_librosa_optional librosa_tempo =
     (case tempo_try_body librosa_tempo of Inl e \<Rightarrow> Inr None | Inr r \<Rightarrow> Inr r)"

section \<open>core/detector.py\<close>

type_synonym hit = "real \<times> real"

text \<open>\<open>hop = max(1, int(sr * hop_ms / 1000.0))\<close>\<close>

definition frame_hop :: "int \<Rightarrow> real \<Rightarrow> int" where
  "frame_hop sr hop_ms = max 1 (py_int (of_int sr * hop_ms / 1000))"

text \<open>\<open>m = (n + hop - 1) // hop\<close>\<close>

definition frame_count :: "nat \<Rightarrow> nat \<Rightarrow> nat" where
  "frame_count n hop = (n + hop - 1) div hop"

text \<open>The envelope loop: \<open>env[i] = max(abs(y[a:b])) if b > a else 0.0\<close>.\<close>

definition envelope :: "real list \<Rightarrow> nat \<Rightarrow> nat \<Rightarrow> real list" where
  "envelope y hop m =
     map (\<lambda>i. let a = i * hop; b = min (length y) (a + hop)
              in if b > a then Max (set (map abs (take (b - a) (drop a y)))) else 0)
         [0..<m]"

text \<open>
  \<open>np.convolve(env, ones(3)/3, mode="same")\<close>: the centred window of three, the array
  padded with zeros at both ends.
\<close>

definition padded :: "real list \<Rightarrow> int \<Rightarrow> real" where
  "padded xs j = (if 0 \<le> j \<and> j < int (length xs) then xs ! nat j else 0)"

definition convolve_same3 :: "real list \<Rightarrow> real list" where
  "convolve_same3 env =
     map (\<lambda>i. padded env (int i - 1) * (1 / 3) + padded env (int i) * (1 / 3)
               + padded env (int i + 1) * (1 / 3))
         [0..<length env]"

definition smooth_env :: "real list \<Rightarrow> real list" where
  "smooth_env env = (if length env \<ge> 3 then convolve_same3 env else env)"

text \<open>\<open>d = np.diff(env_s, prepend=env_s[0]); d[d < 0] = 0.0\<close>\<close>

definition diff_prepend :: "real list \<Rightarrow> real list" where
  "diff_prepend xs = map (\<lambda>i. if i = 0 then xs ! 0 - xs ! 0 else xs ! i - xs ! (i - 1)) [0..<length xs]"

definition clamp_negative :: "real list \<Rightarrow> real list" where
  "clamp_negative ds = map (\<lambda>x. if x < 0 then 0 else x) ds"

text \<open>\<open>score = 0.6 * env_s + 0.4 * d\<close>\<close>

definition frame_score :: "real list \<Rightarrow> nat \<Rightarrow> real list" where
  "frame_score y hop =
     (let m = frame_count (length y) hop;
          env_s = smooth_env (envelope y hop m);
          d = clamp_negative (diff_prepend env_s)
      in map (\<lambda>(e, x). (6 / 10) * e + (4 / 10) * x) (zip env_s d))"

text \<open>
  \<open>np.percentile(a, q)\<close> with the default linear interpolation between the two order
  statistics around the position \<open>(n - 1) * q / 100\<close>.
\<close>

definition np_percentile :: "real list \<Rightarrow> real \<Rightarrow> real" where
  "np_percentile xs q =
     (let a = sort xs; n = length a;
          pos = real (n - 1) * (q / 100);
          lo = nat \<lfloor>pos\<rfloor>;
          hi = min (lo + 1) (n - 1);
          g = pos - real lo
      in a ! lo + g * (a ! hi - a ! lo))"

text \<open>\<open>thr = max(float(np.percentile(score, 92.0)), 0.08)\<close>\<close>

definition threshold :: "real list \<Rightarrow> real" where
  "threshold score = max (np_percentile score 92) (8 / 100)"

text \<open>\<open>min_gap = int(max(1, (min_gap_ms / hop_ms)))\<close>; the float division raises on zero.\<close>

definition min_gap_frames :: "real \<Rightarrow> real \<Rightarrow> py_error + int" where
  "min_gap_frames min_gap_ms hop_ms =
     (if hop_ms = 0 then Inl ZeroDivisionError else Inr (py_int (max 1 (min_gap_ms / hop_ms))))"

text \<open>
  One iteration of the peak loop on frame \<open>i\<close>; the loop state is the list of hits and
  \<open>last_i\<close>.  \<open>(i * hop) / float(sr)\<close> raises on a zero sample rate.
\<close>

definition scan_step ::
  "real list \<Rightarrow> real \<Rightarrow> int \<Rightarrow> nat \<Rightarrow> int \<Rightarrow> nat \<Rightarrow> hit list \<times> int \<Rightarrow> py_error + hit list \<times> int" where
  "scan_step score thr min_gap hop sr i st =
     (case st of (hits, last_i) \<Rightarrow>
        if score ! i < thr then Inr (hits, last_i)
        else if \<not> (score ! i \<ge> score ! (i - 1) \<and> score ! i \<ge> score ! (i + 1)) then Inr (hits, last_i)
        else if int i - last_i < min_gap then
          (if hits \<noteq> [] \<and> score ! i > snd (last hits)
           then Inr (butlast hits @ [(fst (last hits), score ! i)], int i)
           else Inr (hits, last_i))
        else if sr = 0 then Inl ZeroDivisionError
        else Inr (hits @ [(real (i * hop) / of_int sr, score ! i)], int i))"

fun scan ::
  "real list \<Rightarrow> real \<Rightarrow> int \<Rightarrow> nat \<Rightarrow> int \<Rightarrow> nat list \<Rightarrow> hit list \<times> int \<Rightarrow> py_error + hit list \<times> int" where
  "scan score thr min_gap hop sr [] st = Inr st"
| "scan score thr min_gap hop sr (i # is) st =
     (case scan_step score thr min_gap hop sr i st of
        Inl e \<Rightarrow> Inl e
      | Inr st' \<Rightarrow> scan score thr min_gap hop sr is st')"

text \<open>The hits as accepted by the loop \<open>for i in range(1, m - 1)\<close>, before normalisation.\<close>

definition accepted_hits :: "real list \<Rightarrow> int \<Rightarrow> real \<Rightarrow> real \<Rightarrow> py_error + hit list" where
  "accepted_hits y sr hop_ms min_gap_ms =
     (let hop = nat (frame_hop sr hop_ms);
          m = frame_count (length y) hop;
          score = frame_score y hop;
          thr = threshold score
      in case min_gap_frames min_gap_ms hop_ms of
           Inl e \<Rightarrow> Inl e
         | Inr min_gap \<Rightarrow>
             (case scan score thr min_gap hop sr [1..<m - 1] ([], - (10 ^ 9)) of
                Inl e \<Rightarrow> Inl e
              | Inr (hits, last_i) \<Rightarrow> Inr hits))"

text \<open>The final min-max scaling of the strengths.\<close>

definition normalize_hits :: "hit list \<Rightarrow> hit list" where
  "normalize_hits hits =
     (if hits \<noteq> [] then
        (let s = map snd hits; smin = Min (set s); smax = Max (set s)
         in map (\<lambda>(t, v). (t, if smax > smin then (v - smin) / (smax - smin) else 1)) hits)
      else [])"

definition detect_hits_peakish ::
  "real list option \<Rightarrow> int \<Rightarrow> real \<Rightarrow> real \<Rightarrow> py_error + hit list" where
  "detect_hits_peakish y sr hop_ms min_gap_ms =
     (case y of
        None \<Rightarrow> Inr []
      | Some ys \<Rightarrow>
          if length ys = 0 then Inr []
          else (case accepted_hits ys sr hop_ms min_gap_ms of
                  Inl e \<Rightarrow> Inl e
                | Inr hits \<Rightarrow> Inr (normalize_hits hits)))"

section \<open>ui/timeline\_widget.py (windowing state only)\<close>

text \<open>
  The fields of \<open>TimelineWidget\<close> that the window computation reads (\<open>_bpm\<close>,
  \<open>_t0_downbeat\<close>, \<open>_time_sig\<close>, \<open>_window_bars\<close>, \<open>_current_t\<close>, \<open>_duration_s\<close>); the Qt items
  and the redraw calls are rendering and are left out.
\<close>

record TimelineWidget =
  w_bpm :: real
  w_t0_downbeat :: real
  w_time_sig :: "int \<times> int"
  w_window_bars :: int
  w_current_t :: real
  w_duration_s :: real

text \<open>The field values set by \<open>__init__\<close>.\<close>

definition init_widget :: TimelineWidget where
  "init_widget = \<lparr>w_bpm = 120, w_t0_downbeat = 0, w_time_sig = (4, 4), w_window_bars = 2,
     w_current_t = 0, w_duration_s = 0\<rparr>"

definition set_bpm :: "real \<Rightarrow> TimelineWidget \<Rightarrow> TimelineWidget" where
  "set_bpm b w = w\<lparr>w_bpm := max 30 (min 300 b)\<rparr>"

definition set_downbeat_t0 :: "real \<Rightarrow> TimelineWidget \<Rightarrow> TimelineWidget" where
  "set_downbeat_t0 t0 w = w\<lparr>w_t0_downbeat := max 0 t0\<rparr>"

definition set_duration :: "real \<Rightarrow> TimelineWidget \<Rightarrow> TimelineWidget" where
  "set_duration duration_s w = w\<lparr>w_duration_s := max 0 duration_s\<rparr>"

definition update_transport :: "real \<Rightarrow> TimelineWidget \<Rightarrow> TimelineWidget" where
  "update_transport current_t w = w\<lparr>w_current_t := max 0 current_t\<rparr>"

text \<open>\<open>beat_s = 60.0 / self._bpm\<close> raises on a zero BPM.\<close>

definition bars_window_seconds :: "TimelineWidget \<Rightarrow> py_error + real" where
  "bars_window_seconds w =
     (let beats_per_bar = fst (w_time_sig w)
      in if w_bpm w = 0 then Inl ZeroDivisionError
         else (let beat_s = 60 / w_bpm w
               in Inr (of_int (w_window_bars w) * of_int beats_per_bar * beat_s)))"

definition current_window :: "TimelineWidget \<Rightarrow> py_error + real \<times> real" where
  "current_window w =
     (case bars_window_seconds w of
        Inl e \<Rightarrow> Inl e
      | Inr width \<Rightarrow>
          (let start = w_current_t w - width * (25 / 100);
               start = max 0 start;
               end = start + width
           in if w_duration_s w > 0
              then (let end = min (w_duration_s w) end;
                        start = max 0 (end - width)
                    in Inr (start, end))
              else Inr (start, end)))"

text \<open>
  The window as the specification words it, over the beat length of the BeatGrid with the
  widget's tempo: width \<open>2 * beats_per_bar * beat_seconds\<close>, start at a quarter of the
  width before the playhead but not before 0, and with a known duration \<open>D > 0\<close> the end
  clamped to \<open>D\<close> and the start re-derived.
\<close>

definition window_width_spec :: "real \<Rightarrow> int \<Rightarrow> real" where
  "window_width_spec tempo bpb =
     2 * of_int bpb * beat_seconds \<lparr>bpm = tempo, downbeat_t0 = 0, beats_per_bar = bpb\<rparr>"

definition window_spec :: "real \<Rightarrow> real \<Rightarrow> int \<Rightarrow> real \<Rightarrow> real \<times> real" where
  "window_spec t tempo bpb D =
     (let w = window_width_spec tempo bpb;
          start0 = max 0 (t - w * (1 / 4));
          end0 = start0 + w
      in if D > 0 then (max 0 (min D end0 - w), min D end0) else (start0, end0))"

text \<open>What the setters maintain: the tempo stays clamped and the window spans two bars.\<close>

definition widget_ok :: "TimelineWidget \<Rightarrow> bool" where
  "widget_ok w \<longleftrightarrow> 30 \<le> w_bpm w \<and> w_bpm w \<le> 300 \<and> w_window_bars w = 2"

section \<open>models/project.py\<close>

text \<open>
  The values of the \<open>json\<close> module: \<open>None\<close>, booleans, numbers, strings, lists and dicts
  (keys in insertion order, looked up with \<open>map_of\<close>).
\<close>

datatype json = JNull | JBool bool | JNum real | JStr string | JArr "json list" | JObj "(string \<times> json) list"

text \<open>
  Dataclass fields are not checked at run time: the fields that \<open>load\<close> stores as it
  finds them (\<open>t\<close>, \<open>label\<close>, \<open>kind\<close>, \<open>audio_path\<close>) hold any JSON value; \<open>bpm\<close> and
  \<open>downbeat_t0\<close> pass through \<open>float(...)\<close>.  The fields \<open>t\<close>, \<open>label\<close>, \<open>kind\<close> of
  \<open>Marker\<close> and \<open>bpm\<close>, \<open>downbeat_t0\<close> of \<open>Project\<close> carry a prefix here.
\<close>

record Marker =
  marker_t :: json
  marker_label :: json
  marker_kind :: json

record Project =
  audio_path :: json
  project_bpm :: real
  project_downbeat_t0 :: real
  markers :: "Marker list option"

text \<open>\<open>asdict(m)\<close> and \<open>Project.to_dict\<close>; \<open>self.markers or []\<close> turns \<open>None\<close> into the empty list.\<close>

definition marker_asdict :: "Marker \<Rightarrow> json" where
  "marker_asdict m =
     JObj [(''t'', marker_t m), (''label'', marker_label m), (''kind'', marker_kind m)]"

definition to_dict :: "Project \<Rightarrow> json" where
  "to_dict p =
     JObj [(''audio_path'', audio_path p),
           (''bpm'', JNum (project_bpm p)),
           (''downbeat_t0'', JNum (project_downbeat_t0 p)),
           (''markers'', JArr (map marker_asdict (case markers p of None \<Rightarrow> [] | Some ms \<Rightarrow> ms)))]"

text \<open>
  The file system maps a path to the JSON value its text denotes: \<open>json.loads\<close> is taken
  to invert \<open>json.dumps\<close>, and \<open>read_text\<close> to return what \<open>write_text\<close> wrote.
\<close>

type_synonym files = "string \<rightharpoonup> json"

definition save :: "Project \<Rightarrow> string \<Rightarrow> files \<Rightarrow> files" where
  "save p path fs = fs(path \<mapsto> to_dict p)"

text \<open>\<open>d.get(k, default)\<close>\<close>

definition dict_get :: "(string \<times> json) list \<Rightarrow> string \<Rightarrow> json \<Rightarrow> json" where
  "dict_get d k dflt = (case map_of d k of None \<Rightarrow> dflt | Some v \<Rightarrow> v)"

text \<open>
  \<open>Marker(**m)\<close>: \<open>m\<close> must be a mapping whose keys are field names, and \<open>t\<close> has no
  default.
\<close>

definition marker_from_kwargs :: "json \<Rightarrow> py_error + Marker" where
  "marker_from_kwargs m =
     (case m of
        JObj kw \<Rightarrow>
          if \<not> list_all (\<lambda>(k, v). k \<in> set [''t'', ''label'', ''kind'']) kw then Inl TypeError
          else (case map_of kw ''t'' of
                  None \<Rightarrow> Inl TypeError
                | Some t \<Rightarrow>
                    Inr \<lparr>marker_t = t,
                         marker_label = dict_get kw ''label'' (JStr ''''),
                         marker_kind = dict_get kw ''kind'' (JStr ''hit'')\<rparr>)
      | _ \<Rightarrow> Inl TypeError)"

fun markers_from :: "json list \<Rightarrow> py_error + Marker list" where
  "markers_from [] = Inr []"
| "markers_from (m # ms) =
     (case marker_from_kwargs m of
        Inl e \<Rightarrow> Inl e
      | Inr x \<Rightarrow> (case markers_from ms of Inl e \<Rightarrow> Inl e | Inr xs \<Rightarrow> Inr (x # xs)))"

text \<open>Iterating a JSON value: a list gives its items, a dict its keys, a string its characters.\<close>

definition iter_json :: "json \<Rightarrow> py_error + json list" where
  "iter_json v =
     (case v of
        JArr xs \<Rightarrow> Inr xs
      | JObj kw \<Rightarrow> Inr (map (\<lambda>(k, v). JStr k) kw)
      | JStr s \<Rightarrow> Inr (map (\<lambda>c. JStr [c]) s)
      | _ \<Rightarrow> Inl TypeError)"

text \<open>\<open>float(v)\<close>; how Python reads a number from a string is the parameter \<open>parse\<close>.\<close>

definition py_float :: "(string \<Rightarrow> real option) \<Rightarrow> json \<Rightarrow> py_error + real" where
  "py_float parse v =
     (case v of
        JNum x \<Rightarrow> Inr x
      | JBool b \<Rightarrow> Inr (if b then 1 else 0)
      | JStr s \<Rightarrow> (case parse s of None \<Rightarrow> Inl ValueError | Some x \<Rightarrow> Inr x)
      | _ \<Rightarrow> Inl TypeError)"

text \<open>\<open>Project.load\<close> after \<open>json.loads\<close>, in the source's order of evaluation.\<close>

definition load_data :: "(string \<Rightarrow> real option) \<Rightarrow> json \<Rightarrow> py_error + Project" where
  "load_data parse data =
     (case data of
        JObj d \<Rightarrow>
          (case iter_json (dict_get d ''markers'' (JArr [])) of
             Inl e \<Rightarrow> Inl e
           | Inr ms \<Rightarrow>
               (case markers_from ms of
                  Inl e \<Rightarrow> Inl e
                | Inr mk \<Rightarrow>
                    (case map_of d ''audio_path'' of
                       None \<Rightarrow> Inl KeyError
                     | Some ap \<Rightarrow>
                         (case py_float parse (dict_get d ''bpm'' (JNum 120)) of
                            Inl e \<Rightarrow> Inl e
                          | Inr b \<Rightarrow>
                              (case py_float parse (dict_get d ''downbeat_t0'' (JNum 0)) of
                                 Inl e \<Rightarrow> Inl e
                               | Inr t0 \<Rightarrow>
                                   Inr \<lparr>audio_path = ap, project_bpm = b,
                                        project_downbeat_t0 = t0, markers = Some mk\<rparr>)))))
      | _ \<Rightarrow> Inl AttributeError)"

definition load :: "(string \<Rightarrow> real option) \<Rightarrow> string \<Rightarrow> files \<Rightarrow> py_error + Project" where
  "load parse path fs =
     (case fs path of None \<Rightarrow> Inl FileNotFoundError | Some data \<Rightarrow> load_data parse data)"

section \<open>Invariants of the peak loop\<close>

text \<open>
  While the loop runs, the accepted timestamps are pairwise at least \<open>g\<close> apart and none
  lies after frame \<open>last_i\<close>.
\<close>

definition gap_inv :: "real \<Rightarrow> nat \<Rightarrow> int \<Rightarrow> hit list \<Rightarrow> int \<Rightarrow> bool" where
  "gap_inv g hop sr hits li \<longleftrightarrow>
     sorted_wrt (\<lambda>a b. a + g \<le> b) (map fst hits) \<and>
     (\<forall>t \<in> set (map fst hits). t \<le> of_int li * real hop / of_int sr)"

section \<open>Helper facts\<close>

lemma py_int_of_int: "py_int (of_int k) = k"
  by (simp add: py_int_def)








lemma round_half_even_pos: "1 \<le> y \<Longrightarrow> 1 \<le> round_half_even y"
proof -
  assume "1 \<le> y"
  then have "1 \<le> \<lfloor>y\<rfloor>" by (simp add: le_floor_iff)
  then show ?thesis by (simp add: round_half_even_def Let_def)
qed

lemma round_half_even_bounds:
  "\<lfloor>y\<rfloor> \<le> round_half_even y" "round_half_even y \<le> \<lfloor>y\<rfloor> + 1"
  by (simp_all add: round_half_even_def Let_def)

lemma round_half_even_low: "y - of_int \<lfloor>y\<rfloor> < 1 / 2 \<Longrightarrow> round_half_even y = \<lfloor>y\<rfloor>"
  by (simp add: round_half_even_def Let_def)

lemma round_half_even_neg: "y \<le> - 1 \<Longrightarrow> round_half_even y \<le> - 1"
proof -
  assume y: "y \<le> - 1"
  then have f: "\<lfloor>y\<rfloor> \<le> - 1" by (simp add: floor_le_iff)
  show ?thesis
  proof (cases "y - of_int \<lfloor>y\<rfloor> < 1 / 2")
    case True
    with f show ?thesis by (simp only: round_half_even_low)
  next
    case False
    with y have "of_int \<lfloor>y\<rfloor> \<le> (- 3 / 2 :: real)" by linarith
    then have "\<lfloor>y\<rfloor> \<le> - 2" by linarith
    with round_half_even_bounds(2) [of y] show ?thesis by linarith
  qed
qed

lemma binade_bounds:
  assumes "x \<noteq> 0"
  shows "2 powr of_int (binade x) \<le> \<bar>x\<bar>" "\<bar>x\<bar> < 2 powr of_int (binade x + 1)"
proof -
  have "0 < \<bar>x\<bar>" using assms by simp
  then have "2 powr of_int \<lfloor>log 2 \<bar>x\<bar>\<rfloor> \<le> \<bar>x\<bar> \<and> \<bar>x\<bar> < 2 powr (of_int \<lfloor>log 2 \<bar>x\<bar>\<rfloor> + 1)"
    using floor_log_eq_powr_iff [of "\<bar>x\<bar>" 2 "\<lfloor>log 2 \<bar>x\<bar>\<rfloor>"] by simp
  then show "2 powr of_int (binade x) \<le> \<bar>x\<bar>" "\<bar>x\<bar> < 2 powr of_int (binade x + 1)"
    by (simp_all add: binade_def)
qed

lemma scaled_ge_one:
  assumes "x \<noteq> 0"
  shows "1 \<le> \<bar>x\<bar> / 2 powr of_int (binade x - 52)"
proof -
  have "(2::real) powr of_int (binade x - 52) \<le> 2 powr of_int (binade x)"
    by (intro powr_mono) simp_all
  also have "\<dots> \<le> \<bar>x\<bar>" by (rule binade_bounds(1) [OF assms])
  finally show ?thesis by (simp add: le_divide_eq)
qed

lemma float_round_sign:
  "(float_round x < 0 \<longleftrightarrow> x < 0) \<and> (0 < float_round x \<longleftrightarrow> 0 < x)"
proof (cases "x = 0")
  case True
  then show ?thesis by (simp add: float_round_def)
next
  case False
  let ?u = "2 powr of_int (binade x - 52) :: real"
  have u: "0 < ?u" by simp
  have fr: "float_round x = of_int (round_half_even (x / ?u)) * ?u"
    using False by (simp add: float_round_def Let_def)
  show ?thesis
  proof (cases "x < 0")
    case True
    then have "x / ?u \<le> - 1" using scaled_ge_one [OF False] u by (simp add: abs_if divide_le_eq)
    then have "round_half_even (x / ?u) \<le> - 1" by (rule round_half_even_neg)
    then have "of_int (round_half_even (x / ?u)) * ?u < 0"
      using u by (simp add: mult_less_0_iff)
    with True fr show ?thesis by simp
  next
    case nonneg: False
    with False have pos: "0 < x" by simp
    then have "1 \<le> x / ?u" using scaled_ge_one [OF False] by (simp add: abs_if)
    then have "1 \<le> round_half_even (x / ?u)" by (rule round_half_even_pos)
    then have "0 < of_int (round_half_even (x / ?u)) * ?u" using u by simp
    with pos fr show ?thesis by simp
  qed
qed


lemma float_round_pos_iff: "0 < float_round x \<longleftrightarrow> 0 < x"
  using float_round_sign [of x] by simp


lemma beat_seconds_double_pos: "0 < beat_seconds_double g"
  by (simp add: beat_seconds_double_def Let_def float_round_pos_iff)










lemma clamp_bpm_pos: "0 < max (30::real) (min 300 b)"
  by simp

lemma beat_seconds_eq: "beat_seconds g = 60 / max 30 (min 300 (bpm g))"
  by (simp add: beat_seconds_def)

lemma beat_seconds_pos: "0 < beat_seconds g"
  by (simp add: beat_seconds_eq)

lemma length_frame_score: "length (frame_score y hop) = frame_count (length y) hop"
  by (simp add: frame_score_def Let_def smooth_env_def convolve_same3_def envelope_def
      clamp_negative_def diff_prepend_def)

lemma frame_hop_ge1: "1 \<le> frame_hop sr hop_ms"
  by (simp add: frame_hop_def)

section \<open>BeatGrid: time to beat index\<close>




section \<open>BeatGrid: beat length\<close>

text \<open>
  C7 as stated fails: below 30 BPM (and above 300 BPM) the clamp makes \<open>beat_seconds\<close>
  constant, so it is not strictly decreasing there.
\<close>

theorem beat_seconds_strict_counterexample:
  "\<not> (beat_seconds \<lparr>bpm = 10, downbeat_t0 = 0, beats_per_bar = 4\<rparr>
        > beat_seconds \<lparr>bpm = 20, downbeat_t0 = 0, beats_per_bar = 4\<rparr>)"
  by (simp add: beat_seconds_eq)

text \<open>
  C7 (amended).  \<open>beat_seconds\<close> equals \<open>60 / clamp(bpm, 30, 300)\<close>, is positive, is 0.5 at
  120 BPM, never increases with the BPM, and is strictly decreasing for BPM values within
  the clamp range 30..300.
\<close>

theorem beat_seconds_antimono:
  "beat_seconds g = 60 / max 30 (min 300 (bpm g)) \<and>
   0 < beat_seconds g \<and>
   (bpm g = 120 \<longrightarrow> beat_seconds g = 1 / 2) \<and>
   (bpm g \<le> bpm g' \<longrightarrow> beat_seconds g' \<le> beat_seconds g) \<and>
   (30 \<le> bpm g \<and> bpm g < bpm g' \<and> bpm g' \<le> 300 \<longrightarrow> beat_seconds g' < beat_seconds g)"
proof -
  have mono: "bpm g \<le> bpm g' \<longrightarrow> beat_seconds g' \<le> beat_seconds g"
  proof
    assume le: "bpm g \<le> bpm g'"
    have "max 30 (min 300 (bpm g)) \<le> max 30 (min 300 (bpm g'))"
      using le by auto
    then show "beat_seconds g' \<le> beat_seconds g"
      unfolding beat_seconds_eq using clamp_bpm_pos [of "bpm g"]
      by (intro divide_left_mono) (auto intro: mult_pos_pos)
  qed
  have strict: "30 \<le> bpm g \<and> bpm g < bpm g' \<and> bpm g' \<le> 300 \<longrightarrow> beat_seconds g' < beat_seconds g"
  proof
    assume h: "30 \<le> bpm g \<and> bpm g < bpm g' \<and> bpm g' \<le> 300"
    then have "beat_seconds g = 60 / bpm g" "beat_seconds g' = 60 / bpm g'"
      by (simp_all add: beat_seconds_eq)
    moreover have "60 / bpm g' < 60 / bpm g"
      using h by (intro divide_strict_left_mono) (auto intro: mult_pos_pos)
    ultimately show "beat_seconds g' < beat_seconds g" by simp
  qed
  show ?thesis
    using mono strict by (simp add: beat_seconds_eq)
qed

theorem beat_seconds_antimono_witness:
  "beat_seconds \<lparr>bpm = 150, downbeat_t0 = 0, beats_per_bar = 4\<rparr>
     < beat_seconds \<lparr>bpm = 120, downbeat_t0 = 0, beats_per_bar = 4\<rparr> \<and>
   beat_seconds \<lparr>bpm = 120, downbeat_t0 = 0, beats_per_bar = 4\<rparr> = 1 / 2"
  using beat_seconds_antimono [of "\<lparr>bpm = 120, downbeat_t0 = 0, beats_per_bar = 4\<rparr>"
      "\<lparr>bpm = 150, downbeat_t0 = 0, beats_per_bar = 4\<rparr>"]
  by simp

section \<open>Tempo estimation\<close>

text \<open>
  C8.  Whatever librosa does (raise, return an empty array, return any tempo), the estimate
  is returned normally and is either no value or a BPM within 30..300.
\<close>

theorem estimate_bpm_never_raises:
  "\<exists>r. estimate_bpm_librosa_optional x = Inr r \<and>
       (case r of None \<Rightarrow> True | Some v \<Rightarrow> 30 \<le> v \<and> v \<le> 300)"
  by (cases x) (simp_all add: estimate_bpm_librosa_optional_def tempo_try_body_def Let_def)

section \<open>Detector: frame length\<close>

text \<open>
  C6 as stated fails: the frame length truncates.  At 2700 Hz and a hop of 1 ms the code
  uses frames of 2 samples where rounding to nearest gives 3.
\<close>

theorem frame_hop_round_counterexample:
  "frame_hop 2700 1 = 2 \<and> max 1 (round (of_int 2700 * 1 / 1000 :: real)) = 3"
  by (simp add: frame_hop_def py_int_def round_def)

text \<open>
  C6 (amended).  The frame length is \<open>max(1, int(sample_rate * hop_ms / 1000))\<close> with
  \<open>int\<close> truncating towards zero: it is at least 1, it is the floor of the product when
  that is not negative, it never exceeds the value rounded to nearest, and the detector
  scores exactly \<open>ceil(n / hop)\<close> frames of that length.
\<close>

theorem frame_hop_truncates:
  "frame_hop sr hop_ms = max 1 (py_int (of_int sr * hop_ms / 1000)) \<and>
   1 \<le> frame_hop sr hop_ms \<and>
   (0 \<le> of_int sr * hop_ms \<longrightarrow> frame_hop sr hop_ms = max 1 \<lfloor>of_int sr * hop_ms / 1000\<rfloor>) \<and>
   frame_hop sr hop_ms \<le> max 1 (round (of_int sr * hop_ms / 1000)) \<and>
   length (frame_score y (nat (frame_hop sr hop_ms)))
     = (length y + nat (frame_hop sr hop_ms) - 1) div nat (frame_hop sr hop_ms)"
proof -
  have "py_int x \<le> max 1 (round x)" for x :: real
  proof (cases "0 \<le> x")
    case True
    have "\<lfloor>x\<rfloor> \<le> round x"
      unfolding round_def by (intro floor_mono) simp
    with True show ?thesis by (simp add: py_int_def)
  next
    case False
    then have "\<lceil>x\<rceil> \<le> 0" by (simp add: ceiling_le_iff)
    then have "\<lceil>x\<rceil> \<le> max 1 (round x)" by linarith
    with False show ?thesis by (simp add: py_int_def)
  qed
  then have "frame_hop sr hop_ms \<le> max 1 (round (of_int sr * hop_ms / 1000))"
    unfolding frame_hop_def by (simp add: max.coboundedI2)
  then show ?thesis
    by (simp add: frame_hop_def py_int_def length_frame_score frame_count_def)
qed

theorem frame_hop_truncates_witness:
  "0 \<le> (of_int 22050 * 10 :: real) \<and> frame_hop 22050 10 = 220"
  using frame_hop_truncates [of 22050 10 "[]"] by simp

section \<open>Timeline window\<close>

lemma widget_ok_init: "widget_ok init_widget"
  by (simp add: widget_ok_def init_widget_def)

lemma widget_ok_set_bpm: "w_window_bars w = 2 \<Longrightarrow> widget_ok (set_bpm b w)"
  by (simp add: widget_ok_def set_bpm_def)

lemma widget_ok_setters:
  "widget_ok w \<Longrightarrow> widget_ok (set_downbeat_t0 t0 w) \<and> widget_ok (set_duration d w)
     \<and> widget_ok (update_transport t w) \<and> widget_ok (set_bpm b w)"
  by (simp add: widget_ok_def set_downbeat_t0_def set_duration_def update_transport_def
      set_bpm_def)

text \<open>
  C4.  For every widget state kept by the setters (any playback time, tempo, beats per bar
  and duration), the window computed by \<open>_current_window\<close> is the window of the reference
  definition; with a known duration the end never exceeds it, and with duration 0 the
  window is exactly one width wide and starts at or after 0.
\<close>

theorem current_window_refines_spec:
  assumes "widget_ok w"
  shows "current_window w
           = Inr (window_spec (w_current_t w) (w_bpm w) (fst (w_time_sig w)) (w_duration_s w)) \<and>
         (\<forall>s e. current_window w = Inr (s, e) \<longrightarrow>
            (w_duration_s w > 0 \<longrightarrow> e \<le> w_duration_s w) \<and>
            (w_duration_s w = 0 \<longrightarrow>
               e - s = window_width_spec (w_bpm w) (fst (w_time_sig w)) \<and> 0 \<le> s))"
proof -
  from assms have b: "30 \<le> w_bpm w" "w_bpm w \<le> 300" and wb: "w_window_bars w = 2"
    by (simp_all add: widget_ok_def)
  have bs: "beat_seconds \<lparr>bpm = w_bpm w, downbeat_t0 = 0, beats_per_bar = fst (w_time_sig w)\<rparr>
              = 60 / w_bpm w"
    using b by (simp add: beat_seconds_eq)
  have width: "bars_window_seconds w = Inr (window_width_spec (w_bpm w) (fst (w_time_sig w)))"
    using b wb by (simp add: bars_window_seconds_def window_width_spec_def bs Let_def)
  have eq: "current_window w
           = Inr (window_spec (w_current_t w) (w_bpm w) (fst (w_time_sig w)) (w_duration_s w))"
    by (simp add: current_window_def width window_spec_def Let_def)
  show ?thesis
    unfolding eq by (auto simp: window_spec_def Let_def)
qed

theorem current_window_refines_spec_witness:
  "widget_ok (update_transport 10 (set_duration 11 (set_bpm 120 init_widget))) \<and>
   current_window (update_transport 10 (set_duration 11 (set_bpm 120 init_widget))) = Inr (7, 11)"
proof -
  have ok: "widget_ok (update_transport 10 (set_duration 11 (set_bpm 120 init_widget)))"
    by (simp add: widget_ok_def update_transport_def set_duration_def set_bpm_def init_widget_def)
  show ?thesis
    using ok current_window_refines_spec [OF ok]
    by (simp add: window_spec_def window_width_spec_def beat_seconds_eq Let_def
        update_transport_def set_duration_def set_bpm_def init_widget_def)
qed

section \<open>Detector: the peak loop\<close>


lemma scan_step_cases:
  assumes "scan_step score thr mg hop sr i (hits, li) = Inr (hits', li')"
  shows "(hits' = hits \<and> li' = li) \<or>
         (int i - li < mg \<and> hits \<noteq> [] \<and> snd (last hits) < score ! i \<and>
            hits' = butlast hits @ [(fst (last hits), score ! i)] \<and> li' = int i) \<or>
         (\<not> int i - li < mg \<and> sr \<noteq> 0 \<and> thr \<le> score ! i \<and>
            hits' = hits @ [(real (i * hop) / of_int sr, score ! i)] \<and> li' = int i)"
  using assms by (auto simp: scan_step_def split: if_splits)

lemma map_fst_replace_last:
  "hits \<noteq> [] \<Longrightarrow> map fst (butlast hits @ [(fst (last hits), v)]) = map fst hits"
  by (induction hits) auto

lemma gap_inv_step:
  assumes sr: "0 < sr" and lt: "li < int i"
    and inv: "gap_inv (of_int mg * real hop / of_int sr) hop sr hits li"
    and step: "scan_step score thr mg hop sr i (hits, li) = Inr (hits', li')"
  shows "gap_inv (of_int mg * real hop / of_int sr) hop sr hits' li' \<and> li' \<le> int i"
proof -
  have mono: "of_int a * real hop / of_int sr \<le> of_int b * real hop / of_int sr" if "a \<le> b" for a b :: int
    using that sr by (intro divide_right_mono mult_right_mono) simp_all
  from scan_step_cases [OF step] show ?thesis
  proof (elim disjE conjE)
    assume "hits' = hits" "li' = li"
    with inv lt show ?thesis by simp
  next
    assume h: "hits \<noteq> []" "hits' = butlast hits @ [(fst (last hits), score ! i)]" "li' = int i"
    have "map fst hits' = map fst hits" unfolding h(2) by (rule map_fst_replace_last [OF h(1)])
    moreover have "t \<le> of_int (int i) * real hop / of_int sr" if "t \<in> set (map fst hits)" for t
      using inv that mono [of li "int i"] lt by (fastforce simp: gap_inv_def)
    ultimately show ?thesis using inv h by (simp add: gap_inv_def)
  next
    assume h: "\<not> int i - li < mg" "hits' = hits @ [(real (i * hop) / of_int sr, score ! i)]" "li' = int i"
    have ti: "real (i * hop) / of_int sr = of_int (int i) * real hop / of_int sr" by simp
    have "of_int li * real hop / of_int sr \<le> of_int (int i - mg) * real hop / of_int sr"
      using h(1) by (intro mono) simp
    also have "\<dots> = of_int (int i) * real hop / of_int sr - of_int mg * real hop / of_int sr"
      by (simp add: algebra_simps diff_divide_distrib)
    finally have b: "of_int li * real hop / of_int sr + of_int mg * real hop / of_int sr
        \<le> real (i * hop) / of_int sr" unfolding ti by simp
    have old: "t \<le> of_int li * real hop / of_int sr" if "t \<in> set (map fst hits)" for t
      using inv that by (auto simp: gap_inv_def)
    have 1: "\<forall>t \<in> set (map fst hits). t + of_int mg * real hop / of_int sr \<le> real (i * hop) / of_int sr"
      using old b by fastforce
    have 2: "\<forall>t \<in> set (map fst hits). t \<le> of_int (int i) * real hop / of_int sr"
      using old mono [of li "int i"] lt by fastforce
    show ?thesis
      using inv 1 2 unfolding h gap_inv_def by (simp add: sorted_wrt_append)
  qed
qed

lemma gap_inv_scan:
  assumes "0 < sr"
  shows "sorted_wrt (<) is \<Longrightarrow> \<forall>i \<in> set is. li < int i \<Longrightarrow>
     gap_inv (of_int mg * real hop / of_int sr) hop sr hits li \<Longrightarrow>
     scan score thr mg hop sr is (hits, li) = Inr (hits', li') \<Longrightarrow>
     gap_inv (of_int mg * real hop / of_int sr) hop sr hits' li'"
proof (induction "is" arbitrary: hits li)
  case Nil
  then show ?case by simp
next
  case (Cons i "is")
  from Cons.prems(4) obtain h1 l1 where
    s1: "scan_step score thr mg hop sr i (hits, li) = Inr (h1, l1)"
    and s2: "scan score thr mg hop sr is (h1, l1) = Inr (hits', li')"
    by (auto split: sum.splits)
  have lt: "li < int i" using Cons.prems(2) by simp
  from gap_inv_step [OF assms lt Cons.prems(3) s1]
  have inv1: "gap_inv (of_int mg * real hop / of_int sr) hop sr h1 l1" and le: "l1 \<le> int i"
    by simp_all
  have "\<forall>j \<in> set is. l1 < int j" using Cons.prems(1) le by fastforce
  moreover have "sorted_wrt (<) is" using Cons.prems(1) by simp
  ultimately show ?case using Cons.IH inv1 s2 by blast
qed

lemma map_fst_normalize_hits: "map fst (normalize_hits hits) = map fst hits"
  by (simp add: normalize_hits_def Let_def case_prod_unfold comp_def)

lemma py_int_max1: "1 \<le> py_int (max 1 x)"
  by (simp add: py_int_def le_floor_iff)

lemma detect_Inr_cases:
  assumes "detect_hits_peakish y sr hop_ms min_gap_ms = Inr hs"
  shows "hs = [] \<or> (\<exists>ys raw. y = Some ys \<and> ys \<noteq> [] \<and> accepted_hits ys sr hop_ms min_gap_ms = Inr raw
            \<and> hs = normalize_hits raw)"
  using assms by (auto simp: detect_hits_peakish_def split: option.splits if_splits sum.splits)

lemma accepted_hits_scan:
  assumes "accepted_hits ys sr hop_ms min_gap_ms = Inr raw"
  shows "\<exists>mg li. min_gap_frames min_gap_ms hop_ms = Inr mg \<and>
      scan (frame_score ys (nat (frame_hop sr hop_ms))) (threshold (frame_score ys (nat (frame_hop sr hop_ms))))
        mg (nat (frame_hop sr hop_ms)) sr
        [1..<frame_count (length ys) (nat (frame_hop sr hop_ms)) - 1] ([], - (10 ^ 9)) = Inr (raw, li)"
  using assms by (auto simp: accepted_hits_def Let_def split: sum.splits)

lemma accepted_hits_gaps:
  assumes sr: "0 < sr" and acc: "accepted_hits ys sr hop_ms min_gap_ms = Inr raw"
    and mg: "min_gap_frames min_gap_ms hop_ms = Inr mg"
  shows "sorted_wrt (\<lambda>a b. a + of_int mg * real (nat (frame_hop sr hop_ms)) / of_int sr \<le> b) (map fst raw)"
proof -
  from accepted_hits_scan [OF acc] mg obtain li where
    sc: "scan (frame_score ys (nat (frame_hop sr hop_ms))) (threshold (frame_score ys (nat (frame_hop sr hop_ms))))
        mg (nat (frame_hop sr hop_ms)) sr
        [1..<frame_count (length ys) (nat (frame_hop sr hop_ms)) - 1] ([], - (10 ^ 9)) = Inr (raw, li)"
    by auto
  have "gap_inv (of_int mg * real (nat (frame_hop sr hop_ms)) / of_int sr) (nat (frame_hop sr hop_ms)) sr raw li"
    by (rule gap_inv_scan [OF sr _ _ _ sc]) (simp_all add: gap_inv_def)
  then show ?thesis by (simp add: gap_inv_def)
qed


lemma detect_two_spikes:
  "detect_hits_peakish
     (Some [0, 0, 1, 0, 0, 0, 0, 0, 0, 0, 0, 1, 0, 0, 0, 0, 0, 0, 0, 0, 0, 0, 0, 0, 0, 0]) 150 10 90
   = Inr [(1 / 150, 1), (1 / 15, 1)]"
  by code_simp

lemma min_gap_frames_default: "min_gap_frames 90 10 = Inr 9"
  by (simp add: min_gap_frames_def py_int_def)

lemma frame_hop_150: "frame_hop 150 10 = 1"
  by (simp add: frame_hop_def py_int_def)

lemma scan_step_near:
  assumes "int i - li < mg" "scan_step score thr mg hop sr i (hits, li) = Inr (hits', li')"
  shows "map fst hits' = map fst hits \<and> butlast hits' = butlast hits \<and>
         (hits \<noteq> [] \<longrightarrow> snd (last hits) \<le> snd (last hits'))"
  using scan_step_cases [OF assms(2)] assms(1) map_fst_replace_last [of hits "score ! i"]
  by (elim disjE conjE) auto

section \<open>Detector: minimum gap between hits\<close>

text \<open>
  C1 as stated fails: the gap is enforced in whole frames, and both the frame length and
  the gap are truncated.  With the default hop of 10 ms and gap of 90 ms at 150 Hz a frame
  is 1 sample and the gap 9 frames, so two spikes 9 samples apart give two hits 0.06 s
  apart, less than 0.09 s.
\<close>

theorem detect_hits_time_gap_counterexample:
  "detect_hits_peakish
     (Some [0, 0, 1, 0, 0, 0, 0, 0, 0, 0, 0, 1, 0, 0, 0, 0, 0, 0, 0, 0, 0, 0, 0, 0, 0, 0]) 150 10 90
   = Inr [(1 / 150, 1), (1 / 15, 1)] \<and> (1 / 15 - 1 / 150 :: real) < 90 / 1000"
  using detect_two_spikes by simp

text \<open>
  C1 (amended).  A qualifying frame less than \<open>min_gap\<close> frames after \<open>last_i\<close> never adds
  a hit: the timestamps stay as they are and only the strength of the last hit may grow.
  For a positive sample rate the returned timestamps are strictly increasing, and
  consecutive hits are at least \<open>min_gap\<close> frames, that is \<open>min_gap * hop / sr\<close> seconds,
  apart, where \<open>min_gap = int(max(1, min_gap_ms / hop_ms))\<close>.
\<close>

theorem detect_hits_frame_gap:
  "(int i - li < mg \<longrightarrow> scan_step score thr mg hop sr i (hits, li) = Inr (hits', li') \<longrightarrow>
      length hits' = length hits \<and> map fst hits' = map fst hits \<and> butlast hits' = butlast hits \<and>
      (hits \<noteq> [] \<longrightarrow> snd (last hits) \<le> snd (last hits'))) \<and>
   (0 < sr \<longrightarrow> detect_hits_peakish y sr hop_ms min_gap_ms = Inr hs \<longrightarrow>
      min_gap_frames min_gap_ms hop_ms = Inr g \<longrightarrow>
      (\<forall>j. Suc j < length hs \<longrightarrow>
         fst (hs ! j) < fst (hs ! Suc j) \<and>
         of_int g * of_int (frame_hop sr hop_ms) / of_int sr \<le> fst (hs ! Suc j) - fst (hs ! j)))"
proof (intro conjI impI allI)
  assume a: "int i - li < mg" "scan_step score thr mg hop sr i (hits, li) = Inr (hits', li')"
  from scan_step_near [OF a]
  show "map fst hits' = map fst hits" "butlast hits' = butlast hits"
    "hits \<noteq> [] \<Longrightarrow> snd (last hits) \<le> snd (last hits')"
    by simp_all
  then show "length hits' = length hits" by (metis length_map)
next
  fix j
  assume sr: "0 < sr" and det: "detect_hits_peakish y sr hop_ms min_gap_ms = Inr hs"
    and mg: "min_gap_frames min_gap_ms hop_ms = Inr g" and j: "Suc j < length hs"
  let ?gap = "of_int g * real (nat (frame_hop sr hop_ms)) / of_int sr :: real"
  from j have "hs \<noteq> []" by auto
  with detect_Inr_cases [OF det] obtain ys raw where
    acc: "accepted_hits ys sr hop_ms min_gap_ms = Inr raw" and hs: "hs = normalize_hits raw"
    by auto
  have "sorted_wrt (\<lambda>a b. a + ?gap \<le> b) (map fst hs)"
    using accepted_hits_gaps [OF sr acc mg] by (simp add: hs map_fst_normalize_hits)
  then have "map fst hs ! j + ?gap \<le> map fst hs ! Suc j"
    using j sorted_wrt_nth_less [of _ "map fst hs" j "Suc j"] by simp
  then have le: "fst (hs ! j) + ?gap \<le> fst (hs ! Suc j)"
    using j by simp
  have g1: "1 \<le> g" using mg by (auto simp: min_gap_frames_def py_int_max1 split: if_splits)
  have hop: "real (nat (frame_hop sr hop_ms)) = of_int (frame_hop sr hop_ms)"
    using frame_hop_ge1 [of sr hop_ms] by simp
  have "0 < ?gap" using g1 sr frame_hop_ge1 [of sr hop_ms] by simp
  with le show "fst (hs ! j) < fst (hs ! Suc j)" by linarith
  from le show "of_int g * of_int (frame_hop sr hop_ms) / of_int sr \<le> fst (hs ! Suc j) - fst (hs ! j)"
    unfolding hop by linarith
qed

theorem detect_hits_frame_gap_witness:
  "int 2 - 1 < 9 \<and> scan_step [0, 1, 2, 0] 0 9 1 150 2 ([(1 / 150, 1)], 1) = Inr ([(1 / 150, 2)], 2) \<and>
   (0::int) < 150 \<and>
   detect_hits_peakish
     (Some [0, 0, 1, 0, 0, 0, 0, 0, 0, 0, 0, 1, 0, 0, 0, 0, 0, 0, 0, 0, 0, 0, 0, 0, 0, 0]) 150 10 90
   = Inr [(1 / 150, 1), (1 / 15, 1)] \<and>
   min_gap_frames 90 10 = Inr 9 \<and>
   (9 * 1 / 150 :: real) \<le> 1 / 15 - 1 / 150"
proof -
  have st: "scan_step [0, 1, 2, 0] 0 9 1 150 2 ([(1 / 150, 1)], 1) = Inr ([(1 / 150, 2)], 2)"
    by (simp add: scan_step_def)
  show ?thesis
    using detect_hits_frame_gap [where i = 2 and li = 1 and mg = 9 and score = "[0, 1, 2, 0]"
        and thr = 0 and hop = 1 and sr = 150 and hits = "[(1 / 150, 1)]"
        and hits' = "[(1 / 150, 2)]" and li' = 2 and hop_ms = 10 and min_gap_ms = 90
        and y = "Some [0, 0, 1, 0, 0, 0, 0, 0, 0, 0, 0, 1, 0, 0, 0, 0, 0, 0, 0, 0, 0, 0, 0, 0, 0, 0]"
        and hs = "[(1 / 150, 1), (1 / 15, 1)]" and g = 9]
      st detect_two_spikes min_gap_frames_default
    by simp
qed

section \<open>Detector: strength normalisation\<close>

lemma normalize_hits_eq:
  assumes "hits \<noteq> []"
  shows "normalize_hits hits =
     map (\<lambda>(t, v). (t, if Max (set (map snd hits)) > Min (set (map snd hits))
                        then (v - Min (set (map snd hits)))
                             / (Max (set (map snd hits)) - Min (set (map snd hits)))
                        else 1)) hits"
  unfolding normalize_hits_def Let_def using assms by (rule if_P)

lemma normalize_hits_Nil_iff: "normalize_hits hits = [] \<longleftrightarrow> hits = []"
  by (simp add: normalize_hits_def Let_def)

lemma normalize_hits_range:
  assumes "h \<in> set (normalize_hits hits)"
  shows "0 \<le> snd h \<and> snd h \<le> 1"
proof -
  from assms have ne: "hits \<noteq> []" by (auto simp: normalize_hits_def)
  define lo hi where "lo = Min (set (map snd hits))" and "hi = Max (set (map snd hits))"
  have eq: "normalize_hits hits = map (\<lambda>(t, v). (t, if hi > lo then (v - lo) / (hi - lo) else 1)) hits"
    unfolding lo_def hi_def by (rule normalize_hits_eq [OF ne])
  from assms obtain t v where tv: "(t, v) \<in> set hits"
    and h: "h = (t, if hi > lo then (v - lo) / (hi - lo) else 1)"
    unfolding eq by auto
  have mem: "v \<in> set (map snd hits)" using tv by force
  have "lo \<le> v" unfolding lo_def using mem by (intro Min_le) simp_all
  moreover have "v \<le> hi" unfolding hi_def using mem by (intro Max_ge) simp_all
  ultimately show ?thesis unfolding h by (simp add: divide_le_eq)
qed

lemma normalize_hits_top:
  assumes ne: "hits \<noteq> []"
  shows "\<exists>h \<in> set (normalize_hits hits). snd h = 1"
proof -
  define lo hi where "lo = Min (set (map snd hits))" and "hi = Max (set (map snd hits))"
  have eq: "normalize_hits hits = map (\<lambda>(t, v). (t, if hi > lo then (v - lo) / (hi - lo) else 1)) hits"
    unfolding lo_def hi_def by (rule normalize_hits_eq [OF ne])
  have "hi \<in> set (map snd hits)" unfolding hi_def using ne by (intro Max_in) simp_all
  then obtain t where tv: "(t, hi) \<in> set hits" by auto
  have "(t, if hi > lo then (hi - lo) / (hi - lo) else 1) \<in> set (normalize_hits hits)"
    unfolding eq using tv by force
  moreover have "snd (t, if hi > lo then (hi - lo) / (hi - lo) else 1 :: real) = 1" by simp
  ultimately show ?thesis by blast
qed

lemma normalize_hits_all_equal:
  assumes alleq: "\<forall>h \<in> set hits. \<forall>h' \<in> set hits. snd h = snd h'" and h: "h \<in> set (normalize_hits hits)"
  shows "snd h = 1"
proof -
  from h have ne: "hits \<noteq> []" by (auto simp: normalize_hits_def)
  then obtain h0 where h0: "h0 \<in> set hits" by (cases hits) auto
  have "set (map snd hits) = {snd h0}"
  proof (intro equalityI subsetI)
    fix x assume "x \<in> set (map snd hits)"
    then obtain h' where "h' \<in> set hits" "x = snd h'" by (auto simp: image_iff)
    with alleq h0 have "x = snd h0" by blast
    then show "x \<in> {snd h0}" by simp
  next
    fix x assume "x \<in> {snd h0}"
    then show "x \<in> set (map snd hits)" using h0 by simp
  qed
  then have same: "Max (set (map snd hits)) = Min (set (map snd hits))" by simp
  have "normalize_hits hits = map (\<lambda>(t, v). (t, 1)) hits"
    unfolding normalize_hits_eq [OF ne] same by simp
  with h show ?thesis by auto
qed

lemma detect_Inr_nonempty:
  assumes "detect_hits_peakish y sr hop_ms min_gap_ms = Inr hs" "hs \<noteq> []"
  shows "\<exists>ys raw. y = Some ys \<and> ys \<noteq> [] \<and> accepted_hits ys sr hop_ms min_gap_ms = Inr raw \<and>
           raw \<noteq> [] \<and> hs = normalize_hits raw"
proof -
  from detect_Inr_cases [OF assms(1)] assms(2) obtain ys raw where
    *: "y = Some ys" "ys \<noteq> []" "accepted_hits ys sr hop_ms min_gap_ms = Inr raw" "hs = normalize_hits raw"
    by blast
  with assms(2) have "raw \<noteq> []" by (simp add: normalize_hits_Nil_iff)
  with * show ?thesis by blast
qed

lemma detect_spikes_loud_soft:
  "detect_hits_peakish
     (Some [0, 0, 1, 0, 0, 0, 0, 0, 0, 0, 0, 9 / 10, 0, 0, 0, 0, 0, 0, 0, 0, 0, 0, 0, 0, 0, 0]) 150 10 90
   = Inr [(1 / 150, 1), (1 / 15, 0)]"
  by code_simp

text \<open>
  C3.  Whenever the detector returns a non-empty sequence, every strength lies in
  \<open>[0, 1]\<close> and some hit has strength exactly 1.  The result is the min-max scaling
  \<open>(v - min) / (max - min)\<close> of the accepted hits, and when all accepted raw scores are
  equal every strength is 1.
\<close>

theorem detect_strengths_normalized:
  assumes "detect_hits_peakish y sr hop_ms min_gap_ms = Inr hs" and "hs \<noteq> []"
  shows "(\<forall>h \<in> set hs. 0 \<le> snd h \<and> snd h \<le> 1) \<and> (\<exists>h \<in> set hs. snd h = 1) \<and>
         (\<exists>ys raw. y = Some ys \<and> accepted_hits ys sr hop_ms min_gap_ms = Inr raw \<and>
            hs = map (\<lambda>(t, v). (t, if Max (set (map snd raw)) > Min (set (map snd raw))
                        then (v - Min (set (map snd raw)))
                             / (Max (set (map snd raw)) - Min (set (map snd raw)))
                        else 1)) raw \<and>
            ((\<forall>h \<in> set raw. \<forall>h' \<in> set raw. snd h = snd h') \<longrightarrow> (\<forall>h \<in> set hs. snd h = 1)))"
proof -
  from detect_Inr_nonempty [OF assms] obtain ys raw where
    y: "y = Some ys" and acc: "accepted_hits ys sr hop_ms min_gap_ms = Inr raw"
    and ne: "raw \<noteq> []" and hs: "hs = normalize_hits raw"
    by blast
  have 1: "\<forall>h \<in> set hs. 0 \<le> snd h \<and> snd h \<le> 1"
    unfolding hs using normalize_hits_range by blast
  have 2: "\<exists>h \<in> set hs. snd h = 1"
    unfolding hs by (rule normalize_hits_top [OF ne])
  have 3: "(\<forall>h \<in> set raw. \<forall>h' \<in> set raw. snd h = snd h') \<longrightarrow> (\<forall>h \<in> set hs. snd h = 1)"
    unfolding hs using normalize_hits_all_equal by blast
  have 4: "hs = map (\<lambda>(t, v). (t, if Max (set (map snd raw)) > Min (set (map snd raw))
                        then (v - Min (set (map snd raw)))
                             / (Max (set (map snd raw)) - Min (set (map snd raw)))
                        else 1)) raw"
    unfolding hs by (rule normalize_hits_eq [OF ne])
  show ?thesis
  proof (intro conjI)
    show "\<forall>h \<in> set hs. 0 \<le> snd h \<and> snd h \<le> 1" by (rule 1)
    show "\<exists>h \<in> set hs. snd h = 1" by (rule 2)
    show "\<exists>ys raw. y = Some ys \<and> accepted_hits ys sr hop_ms min_gap_ms = Inr raw \<and>
            hs = map (\<lambda>(t, v). (t, if Max (set (map snd raw)) > Min (set (map snd raw))
                        then (v - Min (set (map snd raw)))
                             / (Max (set (map snd raw)) - Min (set (map snd raw)))
                        else 1)) raw \<and>
            ((\<forall>h \<in> set raw. \<forall>h' \<in> set raw. snd h = snd h') \<longrightarrow> (\<forall>h \<in> set hs. snd h = 1))"
      by (intro exI [of _ ys] exI [of _ raw] conjI y acc 4 3)
  qed
qed

theorem detect_strengths_normalized_witness:
  "detect_hits_peakish
     (Some [0, 0, 1, 0, 0, 0, 0, 0, 0, 0, 0, 9 / 10, 0, 0, 0, 0, 0, 0, 0, 0, 0, 0, 0, 0, 0, 0]) 150 10 90
   = Inr [(1 / 150, 1), (1 / 15, 0)] \<and> [(1 / 150, 1), (1 / 15, 0 :: real)] \<noteq> [] \<and>
   (\<exists>h \<in> set [(1 / 150 :: real, 1 :: real), (1 / 15, 0)]. snd h = 1)"
proof -
  have ne: "[(1 / 150, 1), (1 / 15, 0 :: real)] \<noteq> []" by simp
  have "\<exists>h \<in> set [(1 / 150 :: real, 1 :: real), (1 / 15, 0)]. snd h = 1"
    using detect_strengths_normalized [OF detect_spikes_loud_soft ne] by (elim conjE)
  with detect_spikes_loud_soft ne show ?thesis by (intro conjI)
qed

section \<open>Detector: silence and degenerate input\<close>

lemma Max_abs_silence:
  assumes "xs \<noteq> []" "\<forall>x \<in> set xs. x = (0::real)"
  shows "Max (set (map abs xs)) = 0"
proof -
  obtain x where x: "x \<in> set xs" using assms(1) by (cases xs) auto
  have "set (map abs xs) = {0}"
  proof (intro equalityI subsetI)
    fix v assume "v \<in> set (map abs xs)"
    then obtain u where "u \<in> set xs" "v = \<bar>u\<bar>" by (auto simp: image_iff)
    with assms(2) show "v \<in> {0}" by simp
  next
    fix v assume "v \<in> {0::real}"
    then have "v = \<bar>x\<bar>" using x assms(2) by simp
    moreover have "\<bar>x\<bar> \<in> set (map abs xs)" using x by simp
    ultimately show "v \<in> set (map abs xs)" by simp
  qed
  then show ?thesis by simp
qed

lemma envelope_silence:
  assumes "\<forall>x \<in> set ys. x = 0" "e \<in> set (envelope ys hop m)"
  shows "e = 0"
proof -
  define G where "G = (\<lambda>i. let a = i * hop; b = min (length ys) (a + hop)
              in if b > a then Max (set (map abs (take (b - a) (drop a ys)))) else 0)"
  have env: "envelope ys hop m = map G [0..<m]"
    unfolding envelope_def G_def by (rule refl)
  have G0: "G i = 0" for i
  proof (cases "min (length ys) (i * hop + hop) > i * hop")
    case True
    let ?sl = "take (min (length ys) (i * hop + hop) - i * hop) (drop (i * hop) ys)"
    have "0 < length ?sl" using True by (simp add: min_le_iff_disj not_le)
    then have "?sl \<noteq> []" by (rule length_greater_0_conv [THEN iffD1])
    moreover have "\<forall>x \<in> set ?sl. x = 0"
      using assms(1) by (meson in_set_dropD in_set_takeD)
    ultimately have "Max (set (map abs ?sl)) = 0" by (rule Max_abs_silence)
    with True show ?thesis unfolding G_def Let_def by (simp only: if_True)
  next
    case False
    then show ?thesis unfolding G_def Let_def by (simp only: if_False)
  qed
  from assms(2) show ?thesis unfolding env by (auto simp: G0)
qed

lemma nth_silence: "\<forall>x \<in> set xs. x = (0::real) \<Longrightarrow> i < length xs \<Longrightarrow> xs ! i = 0"
  using nth_mem by blast

lemma padded_silence:
  assumes "\<forall>x \<in> set xs. x = 0"
  shows "padded xs j = 0"
proof (cases "0 \<le> j \<and> j < int (length xs)")
  case True
  then have "nat j < length xs" by linarith
  then have "xs ! nat j = 0" by (rule nth_silence [OF assms])
  then show ?thesis by (simp add: padded_def)
next
  case False
  then show ?thesis unfolding padded_def by (rule if_not_P)
qed

lemma smooth_env_silence:
  assumes "\<forall>x \<in> set env. x = 0" "e \<in> set (smooth_env env)"
  shows "e = 0"
proof (cases "3 \<le> length env")
  case True
  with assms(2) have "e \<in> set (convolve_same3 env)" by (simp add: smooth_env_def)
  then show ?thesis by (auto simp: convolve_same3_def padded_silence [OF assms(1)])
next
  case False
  with assms show ?thesis by (simp add: smooth_env_def)
qed

lemma diff_prepend_silence:
  assumes "\<forall>x \<in> set xs. x = 0" "d \<in> set (diff_prepend xs)"
  shows "d = 0"
proof -
  define D where "D = (\<lambda>i. if i = 0 then xs ! 0 - xs ! 0 else xs ! i - xs ! (i - 1))"
  have dp: "diff_prepend xs = map D [0..<length xs]"
    unfolding diff_prepend_def D_def by (rule refl)
  have D0: "D i = 0" if "i < length xs" for i
  proof -
    have "xs ! i = 0" using assms(1) that by (rule nth_silence)
    moreover have "i - 1 < length xs" using that by simp
    then have "xs ! (i - 1) = 0" by (rule nth_silence [OF assms(1)])
    ultimately show ?thesis by (simp add: D_def)
  qed
  from assms(2) show ?thesis unfolding dp by (auto simp: D0)
qed

lemma pos_diff_silence:
  assumes "\<forall>x \<in> set xs. x = 0" "d \<in> set (clamp_negative (diff_prepend xs))"
  shows "d = 0"
proof -
  from assms(2) obtain v where v: "v \<in> set (diff_prepend xs)" and d: "d = (if v < 0 then 0 else v)"
    unfolding clamp_negative_def by auto
  from diff_prepend_silence [OF assms(1) v] d show ?thesis by simp
qed

lemma frame_score_silence:
  assumes "\<forall>x \<in> set ys. x = 0" "s \<in> set (frame_score ys hop)"
  shows "s = 0"
proof -
  let ?env_s = "smooth_env (envelope ys hop (frame_count (length ys) hop))"
  let ?d = "clamp_negative (diff_prepend ?env_s)"
  have env0: "\<forall>e \<in> set ?env_s. e = 0"
    using envelope_silence [OF assms(1)] smooth_env_silence by blast
  then have d0: "\<forall>x \<in> set ?d. x = 0"
    using pos_diff_silence by blast
  from assms(2) obtain e x where "(e, x) \<in> set (zip ?env_s ?d)" and s: "s = 6 / 10 * e + 4 / 10 * x"
    by (auto simp: frame_score_def Let_def)
  then have "e \<in> set ?env_s" "x \<in> set ?d"
    by (auto dest: set_zip_leftD set_zip_rightD)
  with env0 d0 have "e = 0" "x = 0" by blast+
  with s show ?thesis by simp
qed

lemma threshold_floor: "8 / 100 \<le> threshold score"
  by (simp add: threshold_def)

lemma scan_below_threshold:
  "\<forall>i \<in> set is. score ! i < thr \<Longrightarrow> scan score thr mg hop sr is st = Inr st"
  by (induction "is") (auto simp: scan_step_def split: prod.splits)

lemma scan_step_total: "sr \<noteq> 0 \<Longrightarrow> \<exists>st'. scan_step score thr mg hop sr i st = Inr st'"
  by (cases st) (simp add: scan_step_def)

lemma scan_total: "sr \<noteq> 0 \<Longrightarrow> \<exists>st'. scan score thr mg hop sr is st = Inr st'"
proof (induction "is" arbitrary: st)
  case Nil
  then show ?case by simp
next
  case (Cons i "is")
  from scan_step_total [OF Cons.prems] obtain st1 where
    "scan_step score thr mg hop sr i st = Inr st1" by blast
  with Cons.IH [OF Cons.prems, of st1] show ?case by simp
qed

lemma accepted_hits_silence:
  assumes "hop_ms \<noteq> 0" "\<forall>x \<in> set ys. x = 0"
  shows "accepted_hits ys sr hop_ms min_gap_ms = Inr []"
proof -
  let ?hop = "nat (frame_hop sr hop_ms)"
  let ?score = "frame_score ys ?hop"
  have "\<forall>i \<in> set [1..<frame_count (length ys) ?hop - 1]. ?score ! i < threshold ?score"
  proof
    fix i assume "i \<in> set [1..<frame_count (length ys) ?hop - 1]"
    then have "i < frame_count (length ys) ?hop - 1" by simp
    then have "i < frame_count (length ys) ?hop" by linarith
    then have "i < length ?score" by (simp only: length_frame_score)
    then have "?score ! i \<in> set ?score" by (rule nth_mem)
    then have "?score ! i = 0" using frame_score_silence [OF assms(2)] by blast
    then show "?score ! i < threshold ?score" using threshold_floor [of ?score] by simp
  qed
  then have "scan ?score (threshold ?score) mg ?hop sr [1..<frame_count (length ys) ?hop - 1] ([], - (10 ^ 9))
      = Inr ([], - (10 ^ 9))" for mg
    by (rule scan_below_threshold)
  then show ?thesis
    using assms(1) by (simp add: accepted_hits_def Let_def min_gap_frames_def)
qed

lemma accepted_hits_total:
  assumes "hop_ms \<noteq> 0" "sr \<noteq> 0"
  shows "\<exists>hits. accepted_hits ys sr hop_ms min_gap_ms = Inr hits"
proof -
  let ?hop = "nat (frame_hop sr hop_ms)"
  from scan_total [OF assms(2)] obtain st' where
    "scan (frame_score ys ?hop) (threshold (frame_score ys ?hop))
       (py_int (max 1 (min_gap_ms / hop_ms))) ?hop sr
       [1..<frame_count (length ys) ?hop - 1] ([], - (10 ^ 9)) = Inr st'"
    by blast
  then show ?thesis
    using assms(1) by (cases st') (simp add: accepted_hits_def Let_def min_gap_frames_def)
qed

lemma detect_total:
  assumes "hop_ms \<noteq> 0" "sr \<noteq> 0"
  shows "\<exists>hs. detect_hits_peakish y sr hop_ms min_gap_ms = Inr hs"
proof (cases y)
  case None
  then show ?thesis by (simp add: detect_hits_peakish_def)
next
  case (Some ys)
  from accepted_hits_total [OF assms] obtain hits where
    "accepted_hits ys sr hop_ms min_gap_ms = Inr hits" by blast
  with Some show ?thesis by (simp add: detect_hits_peakish_def)
qed

text \<open>
  C5.  On a buffer of zeros the detector returns the empty sequence, for every sample rate,
  with the default hop and gap and with any other non-zero hop: every score is 0 and the
  threshold \<open>max(92nd percentile, 0.08)\<close> is at least 0.08.  A missing or empty buffer
  gives the empty sequence as well, and for a non-zero sample rate and hop no buffer at
  all makes the detector raise.
\<close>

theorem detect_silence_empty:
  "((\<forall>x \<in> set ys. x = 0) \<longrightarrow> detect_hits_peakish (Some ys) sr 10 90 = Inr []) \<and>
   (hop_ms \<noteq> 0 \<longrightarrow> (\<forall>x \<in> set ys. x = 0) \<longrightarrow>
      detect_hits_peakish (Some ys) sr hop_ms min_gap_ms = Inr []) \<and>
   threshold score = max (np_percentile score 92) (8 / 100) \<and>
   ((\<forall>s \<in> set score. s = 0) \<longrightarrow> (\<forall>s \<in> set score. s < threshold score)) \<and>
   detect_hits_peakish None sr hop_ms min_gap_ms = Inr [] \<and>
   detect_hits_peakish (Some []) sr hop_ms min_gap_ms = Inr [] \<and>
   (hop_ms \<noteq> 0 \<longrightarrow> sr \<noteq> 0 \<longrightarrow> (\<exists>hs. detect_hits_peakish y sr hop_ms min_gap_ms = Inr hs))"
proof (intro conjI impI)
  assume "\<forall>x \<in> set ys. x = 0"
  then have "accepted_hits ys sr 10 90 = Inr []" by (intro accepted_hits_silence) simp_all
  then show "detect_hits_peakish (Some ys) sr 10 90 = Inr []"
    by (simp add: detect_hits_peakish_def normalize_hits_def)
next
  assume "hop_ms \<noteq> 0" "\<forall>x \<in> set ys. x = 0"
  then have "accepted_hits ys sr hop_ms min_gap_ms = Inr []" by (rule accepted_hits_silence)
  then show "detect_hits_peakish (Some ys) sr hop_ms min_gap_ms = Inr []"
    by (simp add: detect_hits_peakish_def normalize_hits_def)
next
  show "threshold score = max (np_percentile score 92) (8 / 100)" by (simp add: threshold_def)
next
  assume "\<forall>s \<in> set score. s = 0"
  then show "\<forall>s \<in> set score. s < threshold score"
    using threshold_floor [of score] by auto
next
  show "detect_hits_peakish None sr hop_ms min_gap_ms = Inr []"
    by (simp add: detect_hits_peakish_def)
next
  show "detect_hits_peakish (Some []) sr hop_ms min_gap_ms = Inr []"
    by (simp add: detect_hits_peakish_def)
next
  assume "hop_ms \<noteq> 0" "sr \<noteq> 0"
  then show "\<exists>hs. detect_hits_peakish y sr hop_ms min_gap_ms = Inr hs" by (rule detect_total)
qed

theorem detect_silence_empty_witness:
  "(10::real) \<noteq> 0 \<and>
   detect_hits_peakish (Some (replicate 66150 0)) 22050 10 90 = Inr [] \<and>
   (22050::int) \<noteq> 0 \<and> (\<exists>hs. detect_hits_peakish (Some [1, 1, 1, 1]) 22050 10 90 = Inr hs)"
  using detect_silence_empty [where hop_ms = 10 and ys = "replicate 66150 0" and sr = 22050
      and min_gap_ms = 90 and y = "Some [1, 1, 1, 1]" and score = "[]"]
  by simp

section \<open>Detector: hits lie on interior frames\<close>

lemma scan_step_times:
  assumes "scan_step score thr mg hop sr i (hits, li) = Inr (hits', li')"
  shows "set (map fst hits') \<subseteq> insert (real (i * hop) / of_int sr) (set (map fst hits))"
proof -
  from scan_step_cases [OF assms] show ?thesis
  proof (elim disjE conjE)
    assume "hits' = hits"
    then show ?thesis by auto
  next
    assume h: "hits \<noteq> []" "hits' = butlast hits @ [(fst (last hits), score ! i)]"
    have "map fst hits' = map fst hits" unfolding h(2) by (rule map_fst_replace_last [OF h(1)])
    then show ?thesis by auto
  next
    assume "hits' = hits @ [(real (i * hop) / of_int sr, score ! i)]"
    then show ?thesis by auto
  qed
qed

lemma scan_times:
  "scan score thr mg hop sr is (hits, li) = Inr (hits', li') \<Longrightarrow>
   set (map fst hits') \<subseteq> set (map fst hits) \<union> (\<lambda>i. real (i * hop) / of_int sr) ` set is"
proof (induction "is" arbitrary: hits li)
  case Nil
  then show ?case by simp
next
  case (Cons i "is")
  from Cons.prems obtain h1 l1 where
    s1: "scan_step score thr mg hop sr i (hits, li) = Inr (h1, l1)"
    and s2: "scan score thr mg hop sr is (h1, l1) = Inr (hits', li')"
    by (auto split: sum.splits)
  from Cons.IH [OF s2] scan_step_times [OF s1] show ?case by auto
qed

lemma accepted_hits_frames:
  assumes "accepted_hits ys sr hop_ms min_gap_ms = Inr raw" "t \<in> set (map fst raw)"
  shows "\<exists>i. 1 \<le> i \<and> i + 1 < frame_count (length ys) (nat (frame_hop sr hop_ms)) \<and>
             t = real (i * nat (frame_hop sr hop_ms)) / of_int sr"
proof -
  from accepted_hits_scan [OF assms(1)] obtain mg li where
    "scan (frame_score ys (nat (frame_hop sr hop_ms))) (threshold (frame_score ys (nat (frame_hop sr hop_ms))))
        mg (nat (frame_hop sr hop_ms)) sr
        [1..<frame_count (length ys) (nat (frame_hop sr hop_ms)) - 1] ([], - (10 ^ 9)) = Inr (raw, li)"
    by blast
  from scan_times [OF this] assms(2)
  obtain i where "i \<in> set [1..<frame_count (length ys) (nat (frame_hop sr hop_ms)) - 1]"
    and t: "t = real (i * nat (frame_hop sr hop_ms)) / of_int sr"
    by auto
  then have "1 \<le> i \<and> i + 1 < frame_count (length ys) (nat (frame_hop sr hop_ms))" by auto
  with t show ?thesis by blast
qed

lemma frame_count_covers:
  assumes "1 \<le> hop" "1 \<le> n"
  shows "(frame_count n hop - 1) * hop < n"
proof -
  have "frame_count n hop * hop \<le> n + hop - 1"
    unfolding frame_count_def by (rule div_times_less_eq_dividend)
  then have "frame_count n hop * hop - hop \<le> n - 1" using assms by linarith
  then have "(frame_count n hop - 1) * hop \<le> n - 1" by (simp add: diff_mult_distrib)
  with assms(2) show ?thesis by linarith
qed

text \<open>
  C9.  For a non-empty buffer of \<open>n\<close> samples at a positive sample rate, with frames of
  \<open>h\<close> samples and \<open>m\<close> frames, every returned hit has a timestamp \<open>t\<close> with
  \<open>h / sr \<le> t \<le> (m - 2) * h / sr < n / sr\<close>: no hit at time 0, none in the first or the
  last frame.
\<close>

theorem detect_hits_interior:
  assumes "0 < sr" and "detect_hits_peakish (Some ys) sr hop_ms min_gap_ms = Inr hs" and "ys \<noteq> []"
    and "h = frame_hop sr hop_ms" and "m = frame_count (length ys) (nat h)"
  shows "(\<forall>hit \<in> set hs. 0 < fst hit \<and> of_int h / of_int sr \<le> fst hit \<and>
            fst hit \<le> (real m - 2) * of_int h / of_int sr) \<and>
         (real m - 2) * of_int h / of_int sr < real (length ys) / of_int sr"
proof
  have h1: "1 \<le> h" unfolding assms(4) by (rule frame_hop_ge1)
  then have hn: "real (nat h) = of_int h" by simp
  have srp: "(0::real) < of_int sr" using assms(1) by simp
  have n1: "1 \<le> length ys" using assms(3) by (cases ys) simp_all
  have "(m - 1) * nat h < length ys"
    unfolding assms(5) using h1 n1 by (intro frame_count_covers) simp_all
  then have "real ((m - 1) * nat h) < real (length ys)" by (simp only: of_nat_less_iff)
  moreover have "(real m - 2) * of_int h \<le> real ((m - 1) * nat h)"
  proof -
    have "real m - 2 \<le> real (m - 1)" by linarith
    then have "(real m - 2) * of_int h \<le> real (m - 1) * of_int h"
      using h1 by (intro mult_right_mono) simp_all
    then show ?thesis by (simp add: hn)
  qed
  ultimately have "(real m - 2) * of_int h < real (length ys)" by linarith
  then show "(real m - 2) * of_int h / of_int sr < real (length ys) / of_int sr"
    using srp by (simp add: divide_strict_right_mono)
  show "\<forall>hit \<in> set hs. 0 < fst hit \<and> of_int h / of_int sr \<le> fst hit \<and>
            fst hit \<le> (real m - 2) * of_int h / of_int sr"
  proof
    fix hit assume hit: "hit \<in> set hs"
    then have "hs \<noteq> []" by auto
    with detect_Inr_cases [OF assms(2)] obtain ys' raw where
      "Some ys = Some ys'" and acc': "accepted_hits ys' sr hop_ms min_gap_ms = Inr raw"
      and hs: "hs = normalize_hits raw"
      by blast
    then have acc: "accepted_hits ys sr hop_ms min_gap_ms = Inr raw" by simp
    have "fst hit \<in> set (map fst hs)" using hit by simp
    then have "fst hit \<in> set (map fst raw)" by (simp only: hs map_fst_normalize_hits)
    from accepted_hits_frames [OF acc this] obtain i where
      i: "1 \<le> i" "i + 1 < m" and t: "fst hit = real (i * nat h) / of_int sr"
      unfolding assms(4) assms(5) by blast
    have t': "fst hit = real i * of_int h / of_int sr" using t by (simp add: hn)
    have lo: "of_int h \<le> real i * of_int h" using i(1) h1 by (simp add: mult_le_cancel_right1)
    have "real i \<le> real m - 2" using i(2) by linarith
    then have hi: "real i * of_int h \<le> (real m - 2) * of_int h"
      using h1 by (intro mult_right_mono) simp_all
    have "0 < real_of_int h" using h1 by simp
    with lo have pos: "0 < real i * of_int h" by linarith
    show "0 < fst hit \<and> of_int h / of_int sr \<le> fst hit \<and> fst hit \<le> (real m - 2) * of_int h / of_int sr"
      unfolding t' using srp lo hi pos by (simp add: divide_right_mono)
  qed
qed

theorem detect_hits_interior_witness:
  "(0::int) < 150 \<and>
   detect_hits_peakish
     (Some [0, 0, 1, 0, 0, 0, 0, 0, 0, 0, 0, 1, 0, 0, 0, 0, 0, 0, 0, 0, 0, 0, 0, 0, 0, 0]) 150 10 90
   = Inr [(1 / 150, 1), (1 / 15, 1)] \<and>
   frame_hop 150 10 = 1 \<and> frame_count 26 (nat 1) = 26 \<and>
   of_int (frame_hop 150 10) / of_int 150 \<le> fst (1 / 150 :: real, 1 :: real) \<and>
   fst (1 / 15 :: real, 1 :: real) \<le> (real (frame_count 26 (nat 1)) - 2) * of_int 1 / of_int 150"
  using detect_hits_interior [where sr = 150 and hop_ms = 10 and min_gap_ms = 90
      and ys = "[0, 0, 1, 0, 0, 0, 0, 0, 0, 0, 0, 1, 0, 0, 0, 0, 0, 0, 0, 0, 0, 0, 0, 0, 0, 0]"
      and hs = "[(1 / 150, 1), (1 / 15, 1)]" and h = 1 and m = 26]
    detect_two_spikes frame_hop_150
  by (simp add: frame_count_def)

section \<open>Project persistence\<close>

lemma marker_roundtrip: "marker_from_kwargs (marker_asdict m) = Inr m"
  by (simp add: marker_from_kwargs_def marker_asdict_def dict_get_def)

lemma markers_roundtrip: "markers_from (map marker_asdict ms) = Inr ms"
  by (induction ms) (simp_all add: marker_roundtrip)

lemma load_data_to_dict:
  "load_data parse (to_dict p)
     = Inr (p\<lparr>markers := Some (case markers p of None \<Rightarrow> [] | Some ms \<Rightarrow> ms)\<rparr>)"
  by (simp add: load_data_def to_dict_def dict_get_def iter_json_def py_float_def markers_roundtrip)

text \<open>
  C10.  Saving a project and loading it again from the same path returns the project
  field for field (audio path, BPM, downbeat and every marker with its time, label and
  kind) when its markers field is a list; a \<open>None\<close> markers field comes back as the empty
  list.
\<close>

theorem project_save_load_roundtrip:
  "load parse path (save p path fs)
     = Inr (p\<lparr>markers := Some (case markers p of None \<Rightarrow> [] | Some ms \<Rightarrow> ms)\<rparr>) \<and>
   (markers p = Some ms \<longrightarrow> load parse path (save p path fs) = Inr p) \<and>
   (markers p = None \<longrightarrow> load parse path (save p path fs) = Inr (p\<lparr>markers := Some []\<rparr>))"
  by (simp add: load_def save_def load_data_to_dict)

theorem project_save_load_roundtrip_witness:
  "markers \<lparr>audio_path = JStr ''a.wav'', project_bpm = 128, project_downbeat_t0 = 1 / 4,
      markers = Some [\<lparr>marker_t = JNum (1 / 2), marker_label = JStr '''', marker_kind = JStr ''hit''\<rparr>,
                      \<lparr>marker_t = JNum 2, marker_label = JStr ''drop'', marker_kind = JStr ''manual''\<rparr>]\<rparr>
     = Some [\<lparr>marker_t = JNum (1 / 2), marker_label = JStr '''', marker_kind = JStr ''hit''\<rparr>,
             \<lparr>marker_t = JNum 2, marker_label = JStr ''drop'', marker_kind = JStr ''manual''\<rparr>] \<and>
   load (\<lambda>s. None) ''p.json''
     (save \<lparr>audio_path = JStr ''a.wav'', project_bpm = 128, project_downbeat_t0 = 1 / 4,
        markers = Some [\<lparr>marker_t = JNum (1 / 2), marker_label = JStr '''', marker_kind = JStr ''hit''\<rparr>,
                        \<lparr>marker_t = JNum 2, marker_label = JStr ''drop'', marker_kind = JStr ''manual''\<rparr>]\<rparr>
        ''p.json'' Map.empty)
     = Inr \<lparr>audio_path = JStr ''a.wav'', project_bpm = 128, project_downbeat_t0 = 1 / 4,
        markers = Some [\<lparr>marker_t = JNum (1 / 2), marker_label = JStr '''', marker_kind = JStr ''hit''\<rparr>,
                        \<lparr>marker_t = JNum 2, marker_label = JStr ''drop'', marker_kind = JStr ''manual''\<rparr>]\<rparr>"
  using project_save_load_roundtrip [where parse = "\<lambda>s. None" and path = "''p.json''" and fs = Map.empty
      and p = "\<lparr>audio_path = JStr ''a.wav'', project_bpm = 128, project_downbeat_t0 = 1 / 4,
        markers = Some [\<lparr>marker_t = JNum (1 / 2), marker_label = JStr '''', marker_kind = JStr ''hit''\<rparr>,
                        \<lparr>marker_t = JNum 2, marker_label = JStr ''drop'', marker_kind = JStr ''manual''\<rparr>]\<rparr>"
      and ms = "[\<lparr>marker_t = JNum (1 / 2), marker_label = JStr '''', marker_kind = JStr ''hit''\<rparr>,
                        \<lparr>marker_t = JNum 2, marker_label = JStr ''drop'', marker_kind = JStr ''manual''\<rparr>]"]
  by simp

end
